theory Spec2Isabelle
  imports Main "HOL-Library.Word" "HOL-Library.Multiset"
begin

section \<open>DoublyBufferedData: the data model\<close>

text \<open>
  The embedding follows \<^verbatim>\<open>doubly_buffered_data.h\<close>. One container and the process
  state it touches are a single record; every member function takes the state and returns
  the new one. Calls are sequential: a call that would have to wait for another thread
  (a mutex that is held) does not return, which is the value \<^verbatim>\<open>Inl Blocked\<close>, and a call
  that would dereference a freed \<^verbatim>\<open>Wrapper*\<close> is \<^verbatim>\<open>Inl Dangling\<close>.
\<close>

type_synonym size_t = "64 word"

text \<open>A \<^verbatim>\<open>Wrapper*\<close> is the address of a Wrapper object; a thread is its id.\<close>

type_synonym wid = nat
type_synonym tid = nat

datatype stuck = Blocked | Dangling

datatype mutex = modify_mutex | wrappers_mutex | wrapper_mutex wid

datatype message = Modify_index int | Fail_to_pthread_key_create int

text \<open>
  What a call does besides changing fields: taking and releasing a mutex, applying the
  user's function to \<^verbatim>\<open>_data[i]\<close>, the release store to \<^verbatim>\<open>_index\<close>, and a
  line written to \<^verbatim>\<open>std::cerr\<close>.
\<close>

datatype event = Lock mutex | Unlock mutex | Apply int | Publish int | Cerr message

text \<open>
  class Wrapper: \<^verbatim>\<open>_control\<close> is either the owning container or NULL (\<open>control\<close> is
  True for the container), \<^verbatim>\<open>_mutex\<close> is held or free. The user's TLS value takes no part
  in the protocol and is left out.
\<close>

record Wrapper =
  control :: bool
  mutex_held :: bool

text \<open>
  class DoublyBufferedData: \<^verbatim>\<open>T _data[2]\<close> is a pair, \<^verbatim>\<open>_index\<close> an int,
  \<^verbatim>\<open>_wrappers\<close> the vector of Wrapper addresses. \<open>heap\<close> holds the live Wrapper
  objects of this container, \<open>tls\<close> is \<^verbatim>\<open>pthread_getspecific(_wrapper_key)\<close> per
  thread (NULL is None), \<open>trace\<close> the events so far.
\<close>

record 't dbd =
  data :: "'t \<times> 't"
  index :: int
  created_key :: bool
  wrappers :: "wid list"
  heap :: "wid \<rightharpoonup> Wrapper"
  tls :: "tid \<rightharpoonup> wid"
  trace :: "event list"

text \<open>class ScopedPtr: \<^verbatim>\<open>_data\<close> is NULL or \<^verbatim>\<open>_data + i\<close> of the container, \<^verbatim>\<open>_w\<close>
  is NULL or a Wrapper address.\<close>

record ScopedPtr =
  sp_data :: "int option"
  sp_w :: "wid option"

definition emit :: "event \<Rightarrow> 't dbd \<Rightarrow> 't dbd" where
  "emit e s = s\<lparr>trace := trace s @ [e]\<rparr>"

text \<open>
  \<^verbatim>\<open>_data[i]\<close>, read and written. Every index the container uses is the value of a C++
  \<^verbatim>\<open>!\<close> or \<^verbatim>\<open>==\<close>, so it is 0 or 1.
\<close>

definition data_at :: "'t \<times> 't \<Rightarrow> int \<Rightarrow> 't" where
  "data_at d i = (if i = 0 then fst d else snd d)"

definition data_set :: "'t \<times> 't \<Rightarrow> int \<Rightarrow> 't \<Rightarrow> 't \<times> 't" where
  "data_set d i v = (if i = 0 then (v, snd d) else (fst d, v))"

text \<open>The C++ \<^verbatim>\<open>!\<close> on an int, converted back to int.\<close>

definition lnot :: "int \<Rightarrow> int" where
  "lnot i = (if i = 0 then 1 else 0)"

section \<open>Callables\<close>

text \<open>
  \<^verbatim>\<open>Modify\<close> is a template over any \<^verbatim>\<open>Fn\<close> with \<^verbatim>\<open>size_t operator()(T& bg)\<close>,
  passed by non-const reference. A callable gets its own state \<open>'f\<close> (the functor object
  and whatever else it reads or writes outside the container), the reference \<^verbatim>\<open>T&\<close> as the
  position of the slot in \<^verbatim>\<open>_data\<close>, and the contents of \<^verbatim>\<open>_data\<close>; it returns the
  \<^verbatim>\<open>size_t\<close>, its new state and the new contents of the slot it was given.
\<close>

type_synonym ('f, 't) callable = "'f \<Rightarrow> int \<Rightarrow> 't \<times> 't \<Rightarrow> size_t \<times> 'f \<times> 't"

text \<open>A user function \<^verbatim>\<open>size_t fn(T& bg)\<close> sees the slot it is given and nothing else.\<close>

definition on_slot :: "('f \<Rightarrow> 't \<Rightarrow> size_t \<times> 'f \<times> 't) \<Rightarrow> ('f, 't) callable" where
  "on_slot fn f bg d = fn f (data_at d bg)"

text \<open>
  struct WithFG0, \<^verbatim>\<open>operator()(T& bg)\<close>:
  \<^verbatim>\<open>return _fn(bg, (const T&)_data[&bg == _data]);\<close>
  The comparison \<^verbatim>\<open>&bg == _data\<close> is true exactly for the slot at position 0, and the
  bool indexes the array as 1 (true) or 0 (false).
\<close>

definition WithFG0 :: "('f \<Rightarrow> 't \<Rightarrow> 't \<Rightarrow> size_t \<times> 'f \<times> 't) \<Rightarrow> ('f, 't) callable" where
  "WithFG0 fn f bg d = fn f (data_at d bg) (data_at d (if bg = 0 then 1 else 0))"

text \<open>
  struct Closure2 binds the two extra arguments of \<^verbatim>\<open>Modify(fn, arg1, arg2)\<close>:
  \<^verbatim>\<open>size_t operator()(T& bg) { return _fn(bg, _arg1, _arg2); }\<close>
\<close>

definition Closure2 ::
  "('f \<Rightarrow> 't \<Rightarrow> 'a \<Rightarrow> 'b \<Rightarrow> size_t \<times> 'f \<times> 't) \<Rightarrow> 'a \<Rightarrow> 'b \<Rightarrow> ('f, 't) callable" where
  "Closure2 fn arg1 arg2 f bg d = fn f (data_at d bg) arg1 arg2"

section \<open>Modify\<close>

text \<open>
  The drain loop of Modify,
  \<^verbatim>\<open>for (size_t i = 0; i < _wrappers.size(); ++i) _wrappers[i]->WaitReadDone();\<close>
  WaitReadDone locks and unlocks the Wrapper's mutex; when a reader holds it the writer
  waits.
\<close>

fun WaitReadDone_all :: "wid list \<Rightarrow> 't dbd \<Rightarrow> stuck + 't dbd" where
  "WaitReadDone_all [] s = Inr s"
| "WaitReadDone_all (w # ws) s =
     (case heap s w of
        None \<Rightarrow> Inl Dangling
      | Some W \<Rightarrow>
          if mutex_held W then Inl Blocked
          else WaitReadDone_all ws
                 (emit (Unlock (wrapper_mutex w)) (emit (Lock (wrapper_mutex w)) s)))"

definition Modify :: "('f, 't) callable \<Rightarrow> 'f \<Rightarrow> 't dbd \<Rightarrow> stuck + (size_t \<times> 'f \<times> 't dbd)" where
  "Modify fn f s =
     (let s1 = emit (Lock modify_mutex) s;
          bg_index = lnot (index s1)
      in case fn f bg_index (data s1) of
        (ret, f1, v1) \<Rightarrow>
          let s2 = emit (Apply bg_index) (s1\<lparr>data := data_set (data s1) bg_index v1\<rparr>)
          in if ret = 0 then Inr (0, f1, emit (Unlock modify_mutex) s2)
             else
               let s3 = emit (Publish bg_index) (s2\<lparr>index := bg_index\<rparr>);
                   bg_index2 = lnot bg_index
               in (case WaitReadDone_all (wrappers s3) (emit (Lock wrappers_mutex) s3) of
                     Inl e \<Rightarrow> Inl e
                   | Inr s4 \<Rightarrow>
                       let s5 = emit (Unlock wrappers_mutex) s4
                       in (case fn f1 bg_index2 (data s5) of
                         (ret2, f2, v2) \<Rightarrow>
                           let s6 = emit (Apply bg_index2)
                                      (s5\<lparr>data := data_set (data s5) bg_index2 v2\<rparr>);
                               s7 = (if ret2 = ret
                                     then emit (Cerr (Modify_index (index s6))) s6 else s6)
                           in Inr (ret2, f2, emit (Unlock modify_mutex) s7))))"

definition ModifyWithForeground ::
  "('f \<Rightarrow> 't \<Rightarrow> 't \<Rightarrow> size_t \<times> 'f \<times> 't) \<Rightarrow> 'f \<Rightarrow> 't dbd \<Rightarrow> stuck + (size_t \<times> 'f \<times> 't dbd)" where
  "ModifyWithForeground fn f s = Modify (WithFG0 fn) f s"

text \<open>\<^verbatim>\<open>Modify(Fn& fn, const Arg1& arg1, const Arg2& arg2)\<close>.\<close>

definition Modify2 ::
  "('f \<Rightarrow> 't \<Rightarrow> 'a \<Rightarrow> 'b \<Rightarrow> size_t \<times> 'f \<times> 't) \<Rightarrow> 'a \<Rightarrow> 'b \<Rightarrow> 'f \<Rightarrow> 't dbd
     \<Rightarrow> stuck + (size_t \<times> 'f \<times> 't dbd)" where
  "Modify2 fn arg1 arg2 f s = Modify (Closure2 fn arg1 arg2) f s"

text \<open>No registered reader is inside a read: every Wrapper in the registry is live and
  its mutex is free.\<close>

definition readers_idle :: "'t dbd \<Rightarrow> bool" where
  "readers_idle s = list_all (\<lambda>w. case heap s w of None \<Rightarrow> False | Some W \<Rightarrow> \<not> mutex_held W) (wrappers s)"

text \<open>The events of a drain over a registry of idle readers.\<close>

definition drain_events :: "wid list \<Rightarrow> event list" where
  "drain_events ws = concat (map (\<lambda>w. [Lock (wrapper_mutex w), Unlock (wrapper_mutex w)]) ws)"

section \<open>The reader registry\<close>

text \<open>
  The loop of RemoveWrapper over \<^verbatim>\<open>_wrappers\<close>, from position \<open>i\<close>:
  \<^verbatim>\<open>if (_wrappers[i] == w) { _wrappers[i] = _wrappers.back(); _wrappers.pop_back(); return; }\<close>
\<close>

function RemoveWrapper_loop :: "nat \<Rightarrow> wid \<Rightarrow> wid list \<Rightarrow> wid list" where
  "RemoveWrapper_loop i w ws =
     (if i < length ws
      then (if ws ! i = w then butlast (ws[i := last ws])
            else RemoveWrapper_loop (i + 1) w ws)
      else ws)"
  by pat_completeness auto
termination
  by (relation "measure (\<lambda>(i, w, ws). length ws - i)") auto

declare RemoveWrapper_loop.simps [simp del]

text \<open>RemoveWrapper(Wrapper* w): NULL returns at once; otherwise the loop runs under
  \<^verbatim>\<open>_wrappers_mutex\<close>.\<close>

definition RemoveWrapper :: "wid option \<Rightarrow> 't dbd \<Rightarrow> 't dbd" where
  "RemoveWrapper w s =
     (case w of
        None \<Rightarrow> s
      | Some a \<Rightarrow>
          let s1 = emit (Lock wrappers_mutex) s
          in emit (Unlock wrappers_mutex)
               (s1\<lparr>wrappers := RemoveWrapper_loop 0 a (wrappers s1)\<rparr>))"

text \<open>\<^verbatim>\<open>~Wrapper()\<close> for the object \<open>W\<close> at address \<open>this\<close>:
  \<^verbatim>\<open>if (_control != NULL) _control->RemoveWrapper(this);\<close>\<close>

definition Wrapper_dtor :: "wid \<Rightarrow> Wrapper \<Rightarrow> 't dbd \<Rightarrow> 't dbd" where
  "Wrapper_dtor this W s = (if control W then RemoveWrapper (Some this) s else s)"

text \<open>\<^verbatim>\<open>butil::delete_object<Wrapper>(void* arg)\<close>: the destructor runs, then the
  object is freed. Deleting NULL does nothing.\<close>

definition delete_object :: "wid option \<Rightarrow> 't dbd \<Rightarrow> stuck + 't dbd" where
  "delete_object arg s =
     (case arg of
        None \<Rightarrow> Inr s
      | Some w \<Rightarrow>
          (case heap s w of
             None \<Rightarrow> Inl Dangling
           | Some W \<Rightarrow>
               let s1 = Wrapper_dtor w W s
               in Inr (s1\<lparr>heap := (heap s1)(w := None)\<rparr>)))"

text \<open>
  A thread ends. \<^verbatim>\<open>pthread_key_create(&_wrapper_key, butil::delete_object<Wrapper>)\<close>
  registered the destructor: POSIX sets the thread's value for the key to NULL and calls
  the destructor on the old value when that was not NULL.
\<close>

definition thread_exit :: "tid \<Rightarrow> 't dbd \<Rightarrow> stuck + 't dbd" where
  "thread_exit t s =
     (case tls s t of
        None \<Rightarrow> Inr s
      | Some w \<Rightarrow> delete_object (Some w) (s\<lparr>tls := (tls s)(t := None)\<rparr>))"

text \<open>
  What the fallible library calls of one Read do: \<^verbatim>\<open>new (std::nothrow) Wrapper(this)\<close>
  gives NULL or an address, \<^verbatim>\<open>_wrappers.push_back\<close> throws or not, and
  \<^verbatim>\<open>pthread_setspecific\<close> returns its code.
\<close>

record platform =
  new_Wrapper :: "wid option"
  push_back_throws :: bool
  setspecific_rc :: int

text \<open>
  AddWrapper. The \<^verbatim>\<open>unique_ptr\<close> owns the new Wrapper until \<^verbatim>\<open>release()\<close>: when
  \<^verbatim>\<open>push_back\<close> throws, the scoped lock is released by unwinding, the handler returns
  NULL and the Wrapper is destroyed and freed.
\<close>

definition AddWrapper :: "platform \<Rightarrow> 't dbd \<Rightarrow> wid option \<times> 't dbd" where
  "AddWrapper p s =
     (case new_Wrapper p of
        None \<Rightarrow> (None, s)
      | Some w \<Rightarrow>
          let W = \<lparr>control = True, mutex_held = False\<rparr>;
              s1 = s\<lparr>heap := (heap s)(w \<mapsto> W)\<rparr>;
              s2 = emit (Lock wrappers_mutex) s1
          in if push_back_throws p
             then (let s3 = emit (Unlock wrappers_mutex) s2;
                       s4 = Wrapper_dtor w W s3
                   in (None, s4\<lparr>heap := (heap s4)(w := None)\<rparr>))
             else (Some w, emit (Unlock wrappers_mutex) (s2\<lparr>wrappers := wrappers s2 @ [w]\<rparr>)))"

section \<open>Read and the guard\<close>

text \<open>\<^verbatim>\<open>UnsafeRead\<close> returns \<^verbatim>\<open>_data + _index\<close>: the position of the foreground slot.\<close>

definition UnsafeRead :: "'t dbd \<Rightarrow> int" where
  "UnsafeRead s = index s"

definition BeginRead :: "wid \<Rightarrow> 't dbd \<Rightarrow> stuck + 't dbd" where
  "BeginRead w s =
     (case heap s w of
        None \<Rightarrow> Inl Dangling
      | Some W \<Rightarrow>
          if mutex_held W then Inl Blocked
          else Inr (emit (Lock (wrapper_mutex w)) (s\<lparr>heap := (heap s)(w \<mapsto> W\<lparr>mutex_held := True\<rparr>)\<rparr>)))"

definition EndRead :: "wid \<Rightarrow> 't dbd \<Rightarrow> stuck + 't dbd" where
  "EndRead w s =
     (case heap s w of
        None \<Rightarrow> Inl Dangling
      | Some W \<Rightarrow>
          Inr (emit (Unlock (wrapper_mutex w)) (s\<lparr>heap := (heap s)(w \<mapsto> W\<lparr>mutex_held := False\<rparr>)\<rparr>)))"

text \<open>\<^verbatim>\<open>ScopedPtr() : _data(NULL), _w(NULL)\<close> and \<^verbatim>\<open>~ScopedPtr()\<close>.\<close>

definition ScopedPtr_ctor :: ScopedPtr where
  "ScopedPtr_ctor = \<lparr>sp_data = None, sp_w = None\<rparr>"

definition ScopedPtr_dtor :: "ScopedPtr \<Rightarrow> 't dbd \<Rightarrow> stuck + 't dbd" where
  "ScopedPtr_dtor ptr s = (case sp_w ptr of None \<Rightarrow> Inr s | Some w \<Rightarrow> EndRead w s)"

text \<open>\<^verbatim>\<open>operator*\<close> of the guard: the slot \<^verbatim>\<open>_data\<close> points at, nothing for NULL.\<close>

definition ScopedPtr_deref :: "ScopedPtr \<Rightarrow> 't dbd \<Rightarrow> 't option" where
  "ScopedPtr_deref ptr s = map_option (data_at (data s)) (sp_data ptr)"

text \<open>Read(ScopedPtr* ptr), called by thread \<open>t\<close>.\<close>

definition Read :: "tid \<Rightarrow> platform \<Rightarrow> ScopedPtr \<Rightarrow> 't dbd \<Rightarrow> stuck + (int \<times> ScopedPtr \<times> 't dbd)" where
  "Read t p ptr s =
     (if \<not> created_key s then Inr (- 1, ptr, s)
      else case tls s t of
        Some w \<Rightarrow>
          (case BeginRead w s of
             Inl e \<Rightarrow> Inl e
           | Inr s1 \<Rightarrow> Inr (0, ptr\<lparr>sp_data := Some (UnsafeRead s1), sp_w := Some w\<rparr>, s1))
      | None \<Rightarrow>
          (case AddWrapper p s of
             (None, s1) \<Rightarrow> Inr (- 1, ptr, s1)
           | (Some w, s1) \<Rightarrow>
               if setspecific_rc p = 0
               then (let s2 = s1\<lparr>tls := (tls s1)(t \<mapsto> w)\<rparr>
                     in case BeginRead w s2 of
                          Inl e \<Rightarrow> Inl e
                        | Inr s3 \<Rightarrow>
                            Inr (0, ptr\<lparr>sp_data := Some (UnsafeRead s3), sp_w := Some w\<rparr>, s3))
               else Inr (- 1, ptr, s1)))"

text \<open>The calling thread is not inside a read: its Wrapper, when it has one, is live and
  the mutex is free.\<close>

definition reader_free :: "tid \<Rightarrow> 't dbd \<Rightarrow> bool" where
  "reader_free t s =
     (case tls s t of
        None \<Rightarrow> True
      | Some w \<Rightarrow> (case heap s w of None \<Rightarrow> False | Some W \<Rightarrow> \<not> mutex_held W))"

section \<open>Construction\<close>

text \<open>
  The constructor. \<open>rc\<close> is what \<^verbatim>\<open>pthread_key_create\<close> returns; \<open>scalar_like\<close> is
  \<^verbatim>\<open>is_integral<T> || is_floating_point<T> || is_pointer<T> || is_member_function_pointer<T>\<close>
  (type_traits.h is not among the sources, so the value is a parameter); \<open>T0\<close> is
  \<^verbatim>\<open>T()\<close>; \<open>d\<close> is what default-initialisation left in \<^verbatim>\<open>_data\<close>.
\<close>

definition DoublyBufferedData_ctor :: "int \<Rightarrow> bool \<Rightarrow> 't \<Rightarrow> 't \<times> 't \<Rightarrow> 't dbd" where
  "DoublyBufferedData_ctor rc scalar_like T0 d =
     (let s0 = \<lparr>data = d, index = 0, created_key = False, wrappers = [],
                heap = Map.empty, tls = Map.empty, trace = []\<rparr>;
          s1 = (if rc \<noteq> 0 then emit (Cerr (Fail_to_pthread_key_create rc)) s0
                else s0\<lparr>created_key := True\<rparr>)
      in if scalar_like
         then (let s2 = s1\<lparr>data := data_set (data s1) 0 T0\<rparr>
               in s2\<lparr>data := data_set (data s2) 1 T0\<rparr>)
         else s1)"

section \<open>The program of main.cpp\<close>

text \<open>\<^verbatim>\<open>struct DbdTest { int _index = 0; string _body = ""; };\<close> and
  \<^verbatim>\<open>static bool AddDbd(DbdTest& bg, int index, string body)\<close>, whose \<^verbatim>\<open>true\<close> becomes
  the \<^verbatim>\<open>size_t\<close> 1.\<close>

record DbdTest =
  dt_index :: int
  dt_body :: string

definition AddDbd :: "unit \<Rightarrow> DbdTest \<Rightarrow> int \<Rightarrow> string \<Rightarrow> size_t \<times> unit \<times> DbdTest" where
  "AddDbd f bg i body = (1, f, bg\<lparr>dt_index := i, dt_body := body\<rparr>)"

section \<open>Reading the trace\<close>

text \<open>The lines written to \<^verbatim>\<open>std::cerr\<close>.\<close>

fun diagnostics :: "event list \<Rightarrow> message list" where
  "diagnostics [] = []"
| "diagnostics (Cerr m # es) = m # diagnostics es"
| "diagnostics (_ # es) = diagnostics es"

text \<open>The applications of the user's function and the stores to \<^verbatim>\<open>_index\<close>.\<close>

fun applications :: "event list \<Rightarrow> event list" where
  "applications [] = []"
| "applications (Apply i # es) = Apply i # applications es"
| "applications (Publish i # es) = Publish i # applications es"
| "applications (_ # es) = applications es"

text \<open>The events a call added to the trace.\<close>

definition new_events :: "'t dbd \<Rightarrow> 't dbd \<Rightarrow> event list" where
  "new_events s s' = drop (length (trace s)) (trace s')"

section \<open>The invariant of a live container\<close>

text \<open>
  What holds of the container between calls, from construction on: the index is 0 or 1;
  the registry has no duplicates and every entry is a live Wrapper that points back to
  the container; a thread's slot for \<^verbatim>\<open>_wrapper_key\<close> holds a registered Wrapper, and no
  two threads share one.
\<close>

definition dbd_inv :: "'t dbd \<Rightarrow> bool" where
  "dbd_inv s \<longleftrightarrow>
     (index s = 0 \<or> index s = 1) \<and>
     distinct (wrappers s) \<and>
     (\<forall>w \<in> set (wrappers s). \<exists>W. heap s w = Some W \<and> control W) \<and>
     (\<forall>t w. tls s t = Some w \<longrightarrow> w \<in> set (wrappers s)) \<and>
     (\<forall>t t' w. tls s t = Some w \<and> tls s t' = Some w \<longrightarrow> t = t')"

text \<open>\<^verbatim>\<open>new\<close> never returns the address of a live object.\<close>

definition fresh :: "platform \<Rightarrow> 't dbd \<Rightarrow> bool" where
  "fresh p s = (case new_Wrapper p of None \<Rightarrow> True | Some w \<Rightarrow> heap s w = None)"

section \<open>Modify: the two applications\<close>

lemma WaitReadDone_all_idle:
  "list_all (\<lambda>w. case heap s w of None \<Rightarrow> False | Some W \<Rightarrow> \<not> mutex_held W) ws \<Longrightarrow>
   WaitReadDone_all ws s = Inr (s\<lparr>trace := trace s @ drain_events ws\<rparr>)"
proof (induction ws arbitrary: s)
  case Nil
  then show ?case by (simp add: drain_events_def)
next
  case (Cons w ws)
  then show ?case
    by (auto simp: drain_events_def emit_def split: option.splits)
qed


lemma diagnostics_drain [simp]: "diagnostics (drain_events ws) = []"
  by (induction ws) (simp_all add: drain_events_def)

lemma applications_drain [simp]: "applications (drain_events ws) = []"
  by (induction ws) (simp_all add: drain_events_def)

lemma diagnostics_append [simp]: "diagnostics (xs @ ys) = diagnostics xs @ diagnostics ys"
  by (induction xs rule: diagnostics.induct) simp_all

lemma applications_append [simp]: "applications (xs @ ys) = applications xs @ applications ys"
  by (induction xs rule: applications.induct) simp_all

lemma new_events_trace [simp]: "new_events s (s\<lparr>trace := trace s @ es\<rparr>) = es"
  by (simp add: new_events_def)

lemma new_events_data_trace [simp]:
  "new_events s (s\<lparr>data := d, trace := trace s @ es\<rparr>) = es"
  by (simp add: new_events_def)

lemma new_events_data_index_trace [simp]:
  "new_events s (s\<lparr>data := d, index := i, trace := trace s @ es\<rparr>) = es"
  by (simp add: new_events_def)

lemma lnot_bit: "i = 0 \<or> i = 1 \<Longrightarrow> lnot i = 1 - i \<and> lnot (1 - i) = i"
  by (auto simp: lnot_def)

lemma ctor_idle: "readers_idle (DoublyBufferedData_ctor rc sl T0 d)"
  by (simp add: readers_idle_def DoublyBufferedData_ctor_def emit_def Let_def)

text \<open>The first application returned 0: Modify stops there.\<close>

lemma Modify_early_exit:
  assumes "fn f (lnot (index s)) (data s) = (0, f1, v1)"
  shows "Modify fn f s =
           Inr (0, f1, s\<lparr>data := data_set (data s) (lnot (index s)) v1,
                         trace := trace s @ [Lock modify_mutex, Apply (lnot (index s)),
                                             Unlock modify_mutex]\<rparr>)"
  using assms by (simp add: Modify_def emit_def Let_def)

text \<open>The first application returned nonzero and no reader holds its lock: Modify
  publishes, drains, applies the function again and returns.\<close>

lemma Modify_publish:
  assumes idle: "readers_idle s"
    and first: "fn f (lnot (index s)) (data s) = (r1, f1, v1)" and nz: "r1 \<noteq> 0"
    and second: "fn f1 (lnot (lnot (index s))) (data_set (data s) (lnot (index s)) v1) = (r2, f2, v2)"
  shows "Modify fn f s =
           Inr (r2, f2,
                s\<lparr>data := data_set (data_set (data s) (lnot (index s)) v1) (lnot (lnot (index s))) v2,
                  index := lnot (index s),
                  trace := trace s @ [Lock modify_mutex, Apply (lnot (index s)),
                                      Publish (lnot (index s)), Lock wrappers_mutex]
                           @ drain_events (wrappers s)
                           @ [Unlock wrappers_mutex, Apply (lnot (lnot (index s)))]
                           @ (if r2 = r1 then [Cerr (Modify_index (lnot (index s)))] else [])
                           @ [Unlock modify_mutex]\<rparr>)"
proof -
  let ?bg = "lnot (index s)"
  let ?s3 = "emit (Lock wrappers_mutex) (emit (Publish ?bg)
               ((emit (Apply ?bg) ((emit (Lock modify_mutex) s)
                  \<lparr>data := data_set (data s) ?bg v1\<rparr>))\<lparr>index := ?bg\<rparr>))"
  have "list_all (\<lambda>w. case heap ?s3 w of None \<Rightarrow> False | Some W \<Rightarrow> \<not> mutex_held W) (wrappers s)"
    using idle by (simp add: readers_idle_def emit_def)
  then have drain: "WaitReadDone_all (wrappers s) ?s3 = Inr (?s3\<lparr>trace := trace ?s3 @ drain_events (wrappers s)\<rparr>)"
    by (rule WaitReadDone_all_idle)
  show ?thesis
    using first nz second drain
    by (simp add: Modify_def emit_def Let_def)
qed

text \<open>The same for an index that is 0 or 1, where the negation is \<open>1 - index s\<close>.\<close>

lemma Modify_publish_bit:
  assumes "readers_idle s" and "index s = 0 \<or> index s = 1"
    and "fn f (1 - index s) (data s) = (r1, f1, v1)" and "r1 \<noteq> 0"
    and "fn f1 (index s) (data_set (data s) (1 - index s) v1) = (r2, f2, v2)"
  shows "Modify fn f s =
           Inr (r2, f2,
                s\<lparr>data := data_set (data_set (data s) (1 - index s) v1) (index s) v2,
                  index := 1 - index s,
                  trace := trace s @ [Lock modify_mutex, Apply (1 - index s),
                                      Publish (1 - index s), Lock wrappers_mutex]
                           @ drain_events (wrappers s)
                           @ [Unlock wrappers_mutex, Apply (index s)]
                           @ (if r2 = r1 then [Cerr (Modify_index (1 - index s))] else [])
                           @ [Unlock modify_mutex]\<rparr>)"
proof -
  have bits: "lnot (index s) = 1 - index s" "lnot (1 - index s) = index s"
    using assms(2) by (simp_all add: lnot_bit)
  from Modify_publish [of s fn f r1 f1 v1 r2 f2 v2] assms show ?thesis
    by (simp add: bits)
qed

text \<open>
  When a registered reader holds its lock (or a registry entry is not a live Wrapper) the
  drain does not return. So a Modify whose first application returns nonzero returns
  exactly when the readers are idle.
\<close>

lemma WaitReadDone_all_blocked:
  "\<not> list_all (\<lambda>w. case heap s w of None \<Rightarrow> False | Some W \<Rightarrow> \<not> mutex_held W) ws \<Longrightarrow>
   \<exists>e. WaitReadDone_all ws s = Inl e"
proof (induction ws arbitrary: s)
  case Nil
  then show ?case by simp
next
  case (Cons w ws)
  let ?s1 = "emit (Unlock (wrapper_mutex w)) (emit (Lock (wrapper_mutex w)) s)"
  have heap1: "heap ?s1 = heap s" by (simp add: emit_def)
  show ?case
  proof (cases "heap s w")
    case None
    then show ?thesis by simp
  next
    case (Some W)
    show ?thesis
    proof (cases "mutex_held W")
      case True
      with Some show ?thesis by simp
    next
      case False
      with Some Cons.prems
      have "\<not> list_all (\<lambda>w. case heap ?s1 w of None \<Rightarrow> False | Some W \<Rightarrow> \<not> mutex_held W) ws"
        by (simp add: heap1)
      from Cons.IH [OF this] Some False show ?thesis by simp
    qed
  qed
qed

lemma Modify_returns_iff_idle:
  assumes "fst (fn f (lnot (index s)) (data s)) \<noteq> 0"
  shows "(\<exists>x. Modify fn f s = Inr x) \<longleftrightarrow> readers_idle s"
proof
  assume idle: "readers_idle s"
  obtain r1 f1 v1 where first: "fn f (lnot (index s)) (data s) = (r1, f1, v1)"
    by (metis prod_cases3)
  obtain r2 f2 v2 where
    second: "fn f1 (lnot (lnot (index s))) (data_set (data s) (lnot (index s)) v1) = (r2, f2, v2)"
    by (metis prod_cases3)
  from assms first have "r1 \<noteq> 0" by simp
  from Modify_publish [OF idle first this second] show "\<exists>x. Modify fn f s = Inr x"
    by blast
next
  assume ret: "\<exists>x. Modify fn f s = Inr x"
  show "readers_idle s"
  proof (rule ccontr)
    assume busy: "\<not> readers_idle s"
    obtain r1 f1 v1 where first: "fn f (lnot (index s)) (data s) = (r1, f1, v1)"
      by (metis prod_cases3)
    with assms have nz: "r1 \<noteq> 0" by simp
    let ?s3 = "s\<lparr>data := data_set (data s) (lnot (index s)) v1, index := lnot (index s),
                  trace := trace s @ [Lock modify_mutex, Apply (lnot (index s)),
                                      Publish (lnot (index s)), Lock wrappers_mutex]\<rparr>"
    from busy
    have "\<not> list_all (\<lambda>w. case heap ?s3 w of None \<Rightarrow> False | Some W \<Rightarrow> \<not> mutex_held W) (wrappers s)"
      by (simp add: readers_idle_def)
    from WaitReadDone_all_blocked [OF this]
    obtain e where "WaitReadDone_all (wrappers s) ?s3 = Inl e" by blast
    with first nz have "Modify fn f s = Inl e"
      by (simp add: Modify_def Let_def emit_def)
    with ret show False by simp
  qed
qed


section \<open>The diagnostic of Modify\<close>

text \<open>When Modify reaches the second application, the line on \<^verbatim>\<open>std::cerr\<close> is written
  exactly when the two results are equal.\<close>

lemma Modify_diagnostic_iff_equal:
  assumes "readers_idle s"
    and "fn f (lnot (index s)) (data s) = (r1, f1, v1)" and "r1 \<noteq> 0"
    and "fn f1 (lnot (lnot (index s))) (data_set (data s) (lnot (index s)) v1) = (r2, f2, v2)"
  shows "\<exists>s'. Modify fn f s = Inr (r2, f2, s') \<and>
           diagnostics (new_events s s') = (if r2 = r1 then [Modify_index (lnot (index s))] else [])"
  by (simp add: Modify_publish [OF assms])

text \<open>
  C1. The claim: when the two applications return different values Modify writes a
  diagnostic, and it writes none when they return equal values. The code does the
  opposite. On a fresh container of ints, a function that returns 1 both times makes
  Modify write the line \<^verbatim>\<open>Modify index=1\<close>; a functor that returns 1 and then 2 makes
  Modify write nothing.
\<close>

theorem Modify_diagnostic_on_equal_results:
  "(\<exists>s'. Modify (on_slot (\<lambda>f x. (1, f, 7))) ()
            (DoublyBufferedData_ctor 0 True (0::int) (0, 0)) = Inr (1, (), s') \<and>
          diagnostics (trace s') = [Modify_index 1]) \<and>
   (\<exists>s'. Modify (on_slot (\<lambda>n x. (of_nat (Suc n), Suc n, 7))) (0::nat)
            (DoublyBufferedData_ctor 0 True (0::int) (0, 0)) = Inr (2, 2, s') \<and>
          diagnostics (trace s') = [])"
  by (simp add: Modify_def on_slot_def DoublyBufferedData_ctor_def emit_def lnot_def
      data_at_def data_set_def Let_def)

section \<open>Publication\<close>

text \<open>
  C2. When the first application of fn returns a nonzero value and no registered reader
  holds its lock, Modify returns; it has stored the former background index
  \<open>1 - index s\<close> into the index, and the value it returns is the result of the second
  application of fn, which ran on the former foreground slot after the store.
\<close>

theorem Modify_flips_and_returns_second:
  assumes "readers_idle s" and "index s = 0 \<or> index s = 1"
    and "fn f (1 - index s) (data s) = (r1, f1, v1)" and "r1 \<noteq> 0"
  shows "\<exists>r2 f2 v2 s'.
           fn f1 (index s) (data_set (data s) (1 - index s) v1) = (r2, f2, v2) \<and>
           Modify fn f s = Inr (r2, f2, s') \<and>
           index s' = 1 - index s \<and>
           applications (new_events s s') =
             [Apply (1 - index s), Publish (1 - index s), Apply (index s)]"
proof -
  obtain r2 f2 v2 where
    second: "fn f1 (index s) (data_set (data s) (1 - index s) v1) = (r2, f2, v2)"
    by (metis prod_cases3)
  from Modify_publish_bit [OF assms second] second show ?thesis
    by simp
qed

theorem Modify_flips_and_returns_second_witness:
  "readers_idle (DoublyBufferedData_ctor 0 True (0::int) (0, 0)) \<and>
   index (DoublyBufferedData_ctor 0 True (0::int) (0, 0)) = 0 \<and>
   on_slot (\<lambda>n x. (of_nat (Suc n), Suc n, 7)) (0::nat) 1 (0::int, 0) = (1, 1, 7) \<and>
   (\<exists>s'. Modify (on_slot (\<lambda>n x. (of_nat (Suc n), Suc n, 7))) (0::nat)
            (DoublyBufferedData_ctor 0 True (0::int) (0, 0)) = Inr (2, 2, s') \<and>
          index s' = 1)"
proof -
  let ?s = "DoublyBufferedData_ctor 0 True (0::int) (0, 0)"
  let ?fn = "on_slot (\<lambda>n x. (of_nat (Suc n) :: size_t, Suc n, 7::int))"
  have i: "index ?s = 0" and d: "data ?s = (0, 0)"
    by (simp_all add: DoublyBufferedData_ctor_def Let_def data_set_def)
  have h1: "readers_idle ?s" by (rule ctor_idle)
  have h2: "index ?s = 0 \<or> index ?s = 1" using i by simp
  have h3: "?fn 0 (1 - index ?s) (data ?s) = (1, 1, 7)"
    by (simp add: i d on_slot_def)
  have h4: "(1::size_t) \<noteq> 0" by simp
  from Modify_flips_and_returns_second [of ?s ?fn 0 1 1 7, OF h1 h2 h3 h4]
  show ?thesis using h1 i h3
    by (auto simp: i d on_slot_def data_set_def data_at_def)
qed

section \<open>The early exit\<close>

text \<open>
  C3, as stated, at a concrete input. The claim: when the first application of fn returns 0
  the container is unchanged. On a fresh container of ints (slots 0 and 0, index 0), a
  function that adds 1 to its slot and returns 0 makes Modify return 0 with the slots 0
  and 1: the background slot has changed.
\<close>

theorem Modify_zero_return_changes_slot_counterexample:
  "on_slot (\<lambda>f x. (0, f, x + 1)) () (lnot (index (DoublyBufferedData_ctor 0 True (0::int) (0, 0))))
     (data (DoublyBufferedData_ctor 0 True (0::int) (0, 0))) = (0, (), 1) \<and>
   data (DoublyBufferedData_ctor 0 True (0::int) (0, 0)) = (0, 0) \<and>
   Modify (on_slot (\<lambda>f x. (0, f, x + 1))) () (DoublyBufferedData_ctor 0 True (0::int) (0, 0)) =
     Inr (0, (), (DoublyBufferedData_ctor 0 True (0::int) (0, 0))
                   \<lparr>data := (0, 1),
                     trace := [Lock modify_mutex, Apply 1, Unlock modify_mutex]\<rparr>) \<and>
   data ((DoublyBufferedData_ctor 0 True (0::int) (0, 0))
           \<lparr>data := (0, 1),
             trace := [Lock modify_mutex, Apply 1, Unlock modify_mutex]\<rparr>)
     \<noteq> data (DoublyBufferedData_ctor 0 True (0::int) (0, 0))"
  by (simp add: Modify_def on_slot_def DoublyBufferedData_ctor_def emit_def lnot_def
      data_at_def data_set_def Let_def)

text \<open>Writing the background slot leaves the foreground slot alone.\<close>

lemma data_at_set_other: "data_at (data_set d (lnot i) v) i = data_at d i"
  by (simp add: data_at_def data_set_def lnot_def)

lemma data_set_same: "data_set d i v = d \<longleftrightarrow> v = data_at d i"
  by (cases d) (auto simp: data_at_def data_set_def)

text \<open>
  C3, amended. When the first application of fn returns 0, Modify returns 0 at once: the
  index, the registry, the reader records and the foreground slot are unchanged, the only
  events are the writer lock, one application of fn to the background slot and the
  unlock (no store to the index, no drain, no second application), and the background
  slot holds what that application of fn wrote; so the slots are unchanged exactly when
  fn left its slot as it was.
\<close>

theorem Modify_early_exit_frame:
  assumes "fn f (lnot (index s)) (data s) = (0, f1, v1)"
  shows "\<exists>s'. Modify fn f s = Inr (0, f1, s') \<and>
           index s' = index s \<and> created_key s' = created_key s \<and>
           wrappers s' = wrappers s \<and> heap s' = heap s \<and> tls s' = tls s \<and>
           data s' = data_set (data s) (lnot (index s)) v1 \<and>
           data_at (data s') (index s) = data_at (data s) (index s) \<and>
           (data s' = data s \<longleftrightarrow> v1 = data_at (data s) (lnot (index s))) \<and>
           new_events s s' = [Lock modify_mutex, Apply (lnot (index s)), Unlock modify_mutex]"
  using Modify_early_exit [of fn f s f1 v1] assms
  by (simp add: data_at_set_other data_set_same)

theorem Modify_early_exit_frame_witness:
  "on_slot (\<lambda>f x. (0, f, x)) () (lnot (index (DoublyBufferedData_ctor 0 True (0::int) (0, 0))))
     (data (DoublyBufferedData_ctor 0 True (0::int) (0, 0))) = (0, (), 0) \<and>
   (\<exists>s'. Modify (on_slot (\<lambda>f x. (0, f, x))) () (DoublyBufferedData_ctor 0 True (0::int) (0, 0))
            = Inr (0, (), s') \<and>
          index s' = 0 \<and> data s' = (0, 0) \<and>
          new_events (DoublyBufferedData_ctor 0 True (0::int) (0, 0)) s' =
            [Lock modify_mutex, Apply 1, Unlock modify_mutex])"
proof -
  let ?s = "DoublyBufferedData_ctor 0 True (0::int) (0, 0)"
  let ?fn = "on_slot (\<lambda>f x. (0 :: size_t, f :: unit, x :: int))"
  have i: "index ?s = 0" and d: "data ?s = (0, 0)"
    by (simp_all add: DoublyBufferedData_ctor_def Let_def data_set_def)
  have h: "?fn () (lnot (index ?s)) (data ?s) = (0, (), 0)"
    by (simp add: i d on_slot_def lnot_def data_at_def)
  from Modify_early_exit_frame [of ?fn "()" ?s "()" 0, OF h] h
  show ?thesis
    by (auto simp: i d lnot_def data_at_def data_set_def)
qed

section \<open>Both slots\<close>

text \<open>With idle readers Modify returns, in one of two ways.\<close>

lemma Modify_cases:
  assumes idle: "readers_idle s" and bit: "index s = 0 \<or> index s = 1"
  obtains (early) f1 v1 where
      "fn f (1 - index s) (data s) = (0, f1, v1)"
      "Modify fn f s =
         Inr (0, f1, s\<lparr>data := data_set (data s) (1 - index s) v1,
                       trace := trace s @ [Lock modify_mutex, Apply (1 - index s),
                                           Unlock modify_mutex]\<rparr>)"
  | (publish) r1 f1 v1 r2 f2 v2 where
      "fn f (1 - index s) (data s) = (r1, f1, v1)" "r1 \<noteq> 0"
      "fn f1 (index s) (data_set (data s) (1 - index s) v1) = (r2, f2, v2)"
      "Modify fn f s =
         Inr (r2, f2,
              s\<lparr>data := data_set (data_set (data s) (1 - index s) v1) (index s) v2,
                index := 1 - index s,
                trace := trace s @ [Lock modify_mutex, Apply (1 - index s),
                                    Publish (1 - index s), Lock wrappers_mutex]
                         @ drain_events (wrappers s)
                         @ [Unlock wrappers_mutex, Apply (index s)]
                         @ (if r2 = r1 then [Cerr (Modify_index (1 - index s))] else [])
                         @ [Unlock modify_mutex]\<rparr>)"
proof -
  obtain r1 f1 v1 where first: "fn f (1 - index s) (data s) = (r1, f1, v1)"
    by (metis prod_cases3)
  show thesis
  proof (cases "r1 = 0")
    case True
    have "lnot (index s) = 1 - index s" using bit by (simp add: lnot_bit)
    with Modify_early_exit [of fn f s f1 v1] first True early show thesis
      by simp
  next
    case False
    obtain r2 f2 v2 where
      second: "fn f1 (index s) (data_set (data s) (1 - index s) v1) = (r2, f2, v2)"
      by (metis prod_cases3)
    from publish [OF first False second] Modify_publish_bit [OF idle bit first False second]
    show thesis .
  qed
qed

lemma data_set_both: "i = 0 \<or> i = 1 \<Longrightarrow> data_set (data_set d (1 - i) v) i v = (v, v)"
  by (auto simp: data_set_def)

lemma data_set_idem: "data_set (v, v) i v = (v, v)"
  by (simp add: data_set_def)

lemma Modify_setter_step:
  assumes idle: "readers_idle s" and bit: "index s = 0 \<or> index s = 1"
    and setter: "\<forall>g a d. snd (snd (fn g a d)) = v"
  shows "\<exists>r f' s'. Modify fn f s = Inr (r, f', s') \<and> readers_idle s' \<and>
           (index s' = 0 \<or> index s' = 1) \<and>
           (r \<noteq> 0 \<longrightarrow> data s' = (v, v)) \<and> (data s = (v, v) \<longrightarrow> data s' = (v, v))"
using idle bit
proof (cases rule: Modify_cases [where fn = fn and f = f])
  case (early f1 v1)
  have "v1 = v" using setter early(1) by (metis snd_conv)
  with early(2) idle bit show ?thesis
    by (auto simp: readers_idle_def data_set_idem)
next
  case (publish r1 f1 v1 r2 f2 v2)
  have "v1 = v" "v2 = v" using setter publish(1,3) by (metis snd_conv)+
  with publish(4) idle bit show ?thesis
    by (auto simp: readers_idle_def data_set_both)
qed

text \<open>
  C4. With idle readers Modify returns, and so does a second Modify after it. When the
  first call returns nonzero, fn has been applied exactly once to each slot: to the
  background slot \<open>1 - index s\<close>, then, after the store of that index, to the former
  foreground slot \<open>index s\<close>. For a setter (a function that always leaves \<open>v\<close> in
  its slot) both slots equal \<open>v\<close> after a call that returns nonzero, and after two calls
  in a row of which one returns nonzero.
\<close>

theorem Modify_applies_fn_to_both_slots:
  assumes idle: "readers_idle s" and bit: "index s = 0 \<or> index s = 1"
  shows "\<exists>r f' s' r' f'' s''.
           Modify fn f s = Inr (r, f', s') \<and> Modify fn f' s' = Inr (r', f'', s'') \<and>
           (r \<noteq> 0 \<longrightarrow>
              applications (new_events s s') =
                [Apply (1 - index s), Publish (1 - index s), Apply (index s)] \<and>
              index s' = 1 - index s) \<and>
           ((\<forall>g a d. snd (snd (fn g a d)) = v) \<longrightarrow>
              (r \<noteq> 0 \<longrightarrow> data s' = (v, v)) \<and>
              (r \<noteq> 0 \<or> r' \<noteq> 0 \<longrightarrow> data s'' = (v, v)))"
proof -
  have one: "\<exists>r f' s'. Modify fn f s = Inr (r, f', s') \<and> readers_idle s' \<and>
           (index s' = 0 \<or> index s' = 1) \<and>
           (r \<noteq> 0 \<longrightarrow>
              applications (new_events s s') =
                [Apply (1 - index s), Publish (1 - index s), Apply (index s)] \<and>
              index s' = 1 - index s)"
    using idle bit
  proof (cases rule: Modify_cases [where fn = fn and f = f])
    case (early f1 v1)
    with idle bit show ?thesis by (auto simp: readers_idle_def)
  next
    case (publish r1 f1 v1 r2 f2 v2)
    with idle bit show ?thesis by (auto simp: readers_idle_def)
  qed
  then obtain r f' s' where first: "Modify fn f s = Inr (r, f', s')"
    and idle': "readers_idle s'" and bit': "index s' = 0 \<or> index s' = 1"
    and apps: "r \<noteq> 0 \<longrightarrow>
              applications (new_events s s') =
                [Apply (1 - index s), Publish (1 - index s), Apply (index s)] \<and>
              index s' = 1 - index s"
    by blast
  show ?thesis
  proof (cases "\<forall>g a d. snd (snd (fn g a d)) = v")
    case True
    from Modify_setter_step [OF idle bit True, of f] first
    have d1: "r \<noteq> 0 \<longrightarrow> data s' = (v, v)" by auto
    from Modify_setter_step [OF idle' bit' True, of f']
    obtain r' f'' s'' where second: "Modify fn f' s' = Inr (r', f'', s'')"
      and d2: "r' \<noteq> 0 \<longrightarrow> data s'' = (v, v)" "data s' = (v, v) \<longrightarrow> data s'' = (v, v)"
      by blast
    from first second apps d1 d2 show ?thesis by blast
  next
    case False
    from Modify_cases [OF idle' bit', of fn f']
    obtain r' f'' s'' where second: "Modify fn f' s' = Inr (r', f'', s'')"
      by metis
    from first second apps False show ?thesis by blast
  qed
qed


theorem Modify_applies_fn_to_both_slots_witness:
  "readers_idle (DoublyBufferedData_ctor 0 True (0::int) (0, 0)) \<and>
   index (DoublyBufferedData_ctor 0 True (0::int) (0, 0)) = 0 \<and>
   (\<exists>s' s''.
      Modify (on_slot (\<lambda>f x. (1, f, 7))) () (DoublyBufferedData_ctor 0 True (0::int) (0, 0))
        = Inr (1, (), s') \<and>
      Modify (on_slot (\<lambda>f x. (1, f, 7))) () s' = Inr (1, (), s'') \<and>
      applications (new_events (DoublyBufferedData_ctor 0 True (0::int) (0, 0)) s') =
        [Apply 1, Publish 1, Apply 0] \<and>
      data s' = (7, 7) \<and> data s'' = (7, 7))"
proof -
  let ?s = "DoublyBufferedData_ctor 0 True (0::int) (0, 0)"
  let ?fn = "on_slot (\<lambda>f x. (1 :: size_t, f :: unit, 7 :: int))"
  have i: "index ?s = 0" and d: "data ?s = (0, 0)"
    by (simp_all add: DoublyBufferedData_ctor_def Let_def data_set_def)
  have h1: "readers_idle ?s" by (rule ctor_idle)
  have h2: "index ?s = 0 \<or> index ?s = 1" using i by simp
  have setter: "\<forall>g a d. snd (snd (?fn g a d)) = 7" by (simp add: on_slot_def)
  have nz: "\<And>g a d. fst (?fn g a d) = 1" by (simp add: on_slot_def)
  from Modify_applies_fn_to_both_slots [of ?s ?fn "()" 7, OF h1 h2] setter
  obtain r r' s' s'' where
    m1: "Modify ?fn () ?s = Inr (r, (), s')" and m2: "Modify ?fn () s' = Inr (r', (), s'')"
    and a: "r \<noteq> 0 \<longrightarrow> applications (new_events ?s s') =
              [Apply (1 - index ?s), Publish (1 - index ?s), Apply (index ?s)]"
    and d1: "r \<noteq> 0 \<longrightarrow> data s' = (7, 7)" and d2: "r \<noteq> 0 \<or> r' \<noteq> 0 \<longrightarrow> data s'' = (7, 7)"
    by auto
  have r: "r = 1"
    using m1 by (auto simp: Modify_def Let_def on_slot_def split: sum.splits if_splits)
  have r': "r' = 1"
    using m2 by (auto simp: Modify_def Let_def on_slot_def split: sum.splits if_splits)
  from m1 m2 a d1 d2 h1 i show ?thesis
    by (auto simp: r r')
qed

section \<open>A zero return after publication\<close>

text \<open>
  C8. There is a function whose first application returns nonzero and whose second returns
  0; and for every such call Modify returns 0 although it has published: the index is
  flipped and the new foreground slot holds what the first application wrote.
\<close>

theorem Modify_zero_return_after_publication:
  "(\<exists>(fn :: (nat, int) callable) f s r1 f1 v1 f2 v2.
      readers_idle s \<and> (index s = 0 \<or> index s = 1) \<and>
      fn f (1 - index s) (data s) = (r1, f1, v1) \<and> r1 \<noteq> 0 \<and>
      fn f1 (index s) (data_set (data s) (1 - index s) v1) = (0, f2, v2)) \<and>
   (\<forall>(fn :: ('f, 't) callable) f s r1 f1 v1 f2 v2.
      readers_idle s \<and> (index s = 0 \<or> index s = 1) \<and>
      fn f (1 - index s) (data s) = (r1, f1, v1) \<and> r1 \<noteq> 0 \<and>
      fn f1 (index s) (data_set (data s) (1 - index s) v1) = (0, f2, v2) \<longrightarrow>
      (\<exists>s'. Modify fn f s = Inr (0, f2, s') \<and>
            index s' = 1 - index s \<and> index s' \<noteq> index s \<and>
            data_at (data s') (index s') = v1 \<and>
            applications (new_events s s') =
              [Apply (1 - index s), Publish (1 - index s), Apply (index s)]))"
proof (intro conjI allI impI)
  let ?s = "DoublyBufferedData_ctor 0 True (0::int) (0, 0)"
  let ?fn = "on_slot (\<lambda>n x. (if n = 0 then 1 else 0 :: size_t, Suc n, 7 :: int))"
  have i: "index ?s = 0" and d: "data ?s = (0, 0)"
    by (simp_all add: DoublyBufferedData_ctor_def Let_def data_set_def)
  have "readers_idle ?s \<and> (index ?s = 0 \<or> index ?s = 1) \<and>
      ?fn 0 (1 - index ?s) (data ?s) = (1, 1, 7) \<and> (1 :: size_t) \<noteq> 0 \<and>
      ?fn 1 (index ?s) (data_set (data ?s) (1 - index ?s) 7) = (0, 2, 7)"
    by (simp add: ctor_idle i d on_slot_def)
  then show "\<exists>(fn :: (nat, int) callable) f s r1 f1 v1 f2 v2.
      readers_idle s \<and> (index s = 0 \<or> index s = 1) \<and>
      fn f (1 - index s) (data s) = (r1, f1, v1) \<and> r1 \<noteq> 0 \<and>
      fn f1 (index s) (data_set (data s) (1 - index s) v1) = (0, f2, v2)"
    by blast
next
  fix fn :: "('f, 't) callable" and f s r1 f1 v1 f2 v2
  assume a: "readers_idle s \<and> (index s = 0 \<or> index s = 1) \<and>
      fn f (1 - index s) (data s) = (r1, f1, v1) \<and> r1 \<noteq> 0 \<and>
      fn f1 (index s) (data_set (data s) (1 - index s) v1) = (0, f2, v2)"
  then have bit: "index s = 0 \<or> index s = 1" by simp
  from a Modify_publish_bit [of s fn f r1 f1 v1 0 f2 v2]
  have "Modify fn f s =
           Inr (0, f2,
                s\<lparr>data := data_set (data_set (data s) (1 - index s) v1) (index s) v2,
                  index := 1 - index s,
                  trace := trace s @ [Lock modify_mutex, Apply (1 - index s),
                                      Publish (1 - index s), Lock wrappers_mutex]
                           @ drain_events (wrappers s)
                           @ [Unlock wrappers_mutex, Apply (index s)]
                           @ (if 0 = r1 then [Cerr (Modify_index (1 - index s))] else [])
                           @ [Unlock modify_mutex]\<rparr>)"
    by simp
  moreover have "data_at (data_set (data_set (data s) (1 - index s) v1) (index s) v2) (1 - index s) = v1"
    using bit by (auto simp: data_at_def data_set_def)
  ultimately show "\<exists>s'. Modify fn f s = Inr (0, f2, s') \<and>
            index s' = 1 - index s \<and> index s' \<noteq> index s \<and>
            data_at (data s') (index s') = v1 \<and>
            applications (new_events s s') =
              [Apply (1 - index s), Publish (1 - index s), Apply (index s)]"
    using a by auto
qed

theorem Modify_zero_return_after_publication_witness:
  "readers_idle (DoublyBufferedData_ctor 0 True (0::int) (0, 0)) \<and>
   index (DoublyBufferedData_ctor 0 True (0::int) (0, 0)) = 0 \<and>
   on_slot (\<lambda>n x. (if n = 0 then 1 else 0, Suc n, 7)) (0::nat) 1 (0::int, 0) = (1, 1, 7) \<and>
   on_slot (\<lambda>n x. (if n = 0 then 1 else 0, Suc n, 7)) (1::nat) 0 (0::int, 7) = (0, 2, 7) \<and>
   (\<exists>s'. Modify (on_slot (\<lambda>n x. (if n = 0 then 1 else 0, Suc n, 7))) (0::nat)
            (DoublyBufferedData_ctor 0 True (0::int) (0, 0)) = Inr (0, 2, s') \<and>
          index s' = 1 \<and> data_at (data s') 1 = 7)"
proof -
  let ?s = "DoublyBufferedData_ctor 0 True (0::int) (0, 0)"
  let ?fn = "on_slot (\<lambda>n x. (if n = 0 then 1 else 0 :: size_t, Suc n, 7 :: int))"
  have i: "index ?s = 0" and d: "data ?s = (0, 0)"
    by (simp_all add: DoublyBufferedData_ctor_def Let_def data_set_def)
  have h: "readers_idle ?s \<and> (index ?s = 0 \<or> index ?s = 1) \<and>
      ?fn 0 (1 - index ?s) (data ?s) = (1, 1, 7) \<and> (1 :: size_t) \<noteq> 0 \<and>
      ?fn 1 (index ?s) (data_set (data ?s) (1 - index ?s) 7) = (0, 2, 7)"
    by (simp add: ctor_idle i d on_slot_def)
  from Modify_zero_return_after_publication [THEN conjunct2, rule_format, of ?s ?fn 0 1 1 7 2 7, OF h]
  show ?thesis using h
    by (auto simp: i d on_slot_def data_set_def)
qed

section \<open>ModifyWithForeground\<close>

lemma WithFG0_other: "i = 0 \<or> i = 1 \<Longrightarrow> WithFG0 fn f i d = fn f (data_at d i) (data_at d (1 - i))"
  by (auto simp: WithFG0_def)

lemma data_at_set_same: "data_at (data_set d i v) i = v"
  by (simp add: data_at_def data_set_def)

lemma data_at_set_opposite: "i = 0 \<or> i = 1 \<Longrightarrow> data_at (data_set d (1 - i) v) i = data_at d i"
  by (auto simp: data_at_def data_set_def)

text \<open>
  C5. The callable built by WithFG0 passes, with the slot at position \<open>i\<close>, the slot at
  position \<open>1 - i\<close> as the other argument. So in ModifyWithForeground the first
  invocation of fn writes the background slot and reads the foreground slot of before the
  call, and the second writes the former foreground slot and reads the newly published
  one. Starting from a fresh container, after Modify has set both slots to 5, a function
  that sets its slot to other + 1 leaves 6 in the published foreground slot and 7 in the
  background slot.
\<close>

theorem ModifyWithForeground_other_is_opposite_slot:
  "(\<forall>(fn :: 'f \<Rightarrow> 't \<Rightarrow> 't \<Rightarrow> size_t \<times> 'f \<times> 't) f i d.
      i = 0 \<or> i = 1 \<longrightarrow> WithFG0 fn f i d = fn f (data_at d i) (data_at d (1 - i))) \<and>
   (\<forall>(fn :: 'f \<Rightarrow> 't \<Rightarrow> 't \<Rightarrow> size_t \<times> 'f \<times> 't) f s r1 f1 v1 r2 f2 v2.
      readers_idle s \<and> (index s = 0 \<or> index s = 1) \<and>
      fn f (data_at (data s) (1 - index s)) (data_at (data s) (index s)) = (r1, f1, v1) \<and>
      r1 \<noteq> 0 \<and>
      fn f1 (data_at (data s) (index s)) v1 = (r2, f2, v2) \<longrightarrow>
      (\<exists>s'. ModifyWithForeground fn f s = Inr (r2, f2, s') \<and>
            index s' = 1 - index s \<and>
            data_at (data s') (index s') = v1 \<and>
            data_at (data s') (1 - index s') = v2)) \<and>
   (\<exists>s1 s2.
      Modify (on_slot (\<lambda>f x. (1, f, 5))) () (DoublyBufferedData_ctor 0 True (0::int) (0, 0))
        = Inr (1, (), s1) \<and>
      data s1 = (5, 5) \<and>
      ModifyWithForeground (\<lambda>f bg other. (1, f, other + 1)) () s1 = Inr (1, (), s2) \<and>
      data_at (data s2) (index s2) = 6 \<and> data_at (data s2) (1 - index s2) = 7)"
proof (intro conjI allI impI)
  fix fn :: "'f \<Rightarrow> 't \<Rightarrow> 't \<Rightarrow> size_t \<times> 'f \<times> 't" and f :: 'f and i :: int and d :: "'t \<times> 't"
  assume "i = 0 \<or> i = 1"
  then show "WithFG0 fn f i d = fn f (data_at d i) (data_at d (1 - i))"
    by (rule WithFG0_other)
next
  fix fn :: "'f \<Rightarrow> 't \<Rightarrow> 't \<Rightarrow> size_t \<times> 'f \<times> 't" and f s r1 f1 v1 r2 f2 v2
  assume a: "readers_idle s \<and> (index s = 0 \<or> index s = 1) \<and>
      fn f (data_at (data s) (1 - index s)) (data_at (data s) (index s)) = (r1, f1, v1) \<and>
      r1 \<noteq> 0 \<and>
      fn f1 (data_at (data s) (index s)) v1 = (r2, f2, v2)"
  then have idle: "readers_idle s" and bit: "index s = 0 \<or> index s = 1" and nz: "r1 \<noteq> 0"
    by simp_all
  have bit': "1 - index s = 0 \<or> 1 - index s = 1" using bit by auto
  have first: "WithFG0 fn f (1 - index s) (data s) = (r1, f1, v1)"
    using a bit' by (simp add: WithFG0_other)
  have second: "WithFG0 fn f1 (index s) (data_set (data s) (1 - index s) v1) = (r2, f2, v2)"
    using a bit by (simp add: WithFG0_other data_at_set_same data_at_set_opposite)
  from Modify_publish_bit [OF idle bit first nz second]
  show "\<exists>s'. ModifyWithForeground fn f s = Inr (r2, f2, s') \<and>
            index s' = 1 - index s \<and>
            data_at (data s') (index s') = v1 \<and>
            data_at (data s') (1 - index s') = v2"
    using bit by (auto simp: ModifyWithForeground_def data_at_def data_set_def)
next
  show "\<exists>s1 s2.
      Modify (on_slot (\<lambda>f x. (1, f, 5))) () (DoublyBufferedData_ctor 0 True (0::int) (0, 0))
        = Inr (1, (), s1) \<and>
      data s1 = (5, 5) \<and>
      ModifyWithForeground (\<lambda>f bg other. (1, f, other + 1)) () s1 = Inr (1, (), s2) \<and>
      data_at (data s2) (index s2) = 6 \<and> data_at (data s2) (1 - index s2) = 7"
    by (simp add: ModifyWithForeground_def WithFG0_def Modify_def on_slot_def
        DoublyBufferedData_ctor_def emit_def lnot_def data_at_def data_set_def Let_def)
qed

theorem ModifyWithForeground_other_is_opposite_slot_witness:
  "readers_idle ((DoublyBufferedData_ctor 0 True (0::int) (0, 0))\<lparr>data := (5, 5)\<rparr>) \<and>
   index ((DoublyBufferedData_ctor 0 True (0::int) (0, 0))\<lparr>data := (5, 5)\<rparr>) = 0 \<and>
   (\<exists>s'. ModifyWithForeground (\<lambda>f bg other. (1, f, other + 1)) ()
            ((DoublyBufferedData_ctor 0 True (0::int) (0, 0))\<lparr>data := (5, 5)\<rparr>) = Inr (1, (), s') \<and>
          index s' = 1 \<and> data_at (data s') 1 = 6 \<and> data_at (data s') 0 = 7)"
proof -
  let ?s = "(DoublyBufferedData_ctor 0 True (0::int) (0, 0))\<lparr>data := (5, 5)\<rparr>"
  let ?fn = "\<lambda>(f :: unit) (bg :: int) other. (1 :: size_t, f, other + 1 :: int)"
  have i: "index ?s = 0" and d: "data ?s = (5, 5)"
    by (simp_all add: DoublyBufferedData_ctor_def Let_def data_set_def)
  have idle: "readers_idle ?s"
    by (simp add: readers_idle_def DoublyBufferedData_ctor_def Let_def)
  have h: "readers_idle ?s \<and> (index ?s = 0 \<or> index ?s = 1) \<and>
      ?fn () (data_at (data ?s) (1 - index ?s)) (data_at (data ?s) (index ?s)) = (1, (), 6) \<and>
      (1 :: size_t) \<noteq> 0 \<and>
      ?fn () (data_at (data ?s) (index ?s)) 6 = (1, (), 7)"
    using idle by (simp add: i d data_at_def)
  from ModifyWithForeground_other_is_opposite_slot
         [THEN conjunct2, THEN conjunct1, rule_format, of ?s ?fn "()" 1 "()" 6 1 "()" 7, OF h]
  show ?thesis using idle
    by (auto simp: i)
qed

section \<open>Read\<close>

text \<open>Read returns exactly when the key is missing or the calling thread is not inside a
  read.\<close>

lemma Read_returns_iff:
  "(\<exists>x. Read t p ptr s = Inr x) \<longleftrightarrow> \<not> created_key s \<or> reader_free t s"
  by (auto simp: Read_def AddWrapper_def BeginRead_def reader_free_def emit_def Let_def
      Wrapper_dtor_def RemoveWrapper_def split: option.splits if_splits)

text \<open>
  C6. A thread that is not already inside a read gets an answer from Read. The answer is
  -1 exactly when the key was not created at construction, or the thread has no Wrapper
  yet and registering one fails (\<^verbatim>\<open>new\<close> gives NULL, \<^verbatim>\<open>push_back\<close> throws, or
  \<^verbatim>\<open>pthread_setspecific\<close> fails). In every other case the answer is 0, the guard
  points at the foreground slot and holds the thread's Wrapper, whose mutex is now held.
\<close>

theorem Read_fails_only_without_key_or_registration:
  assumes "reader_free t s"
  shows "\<exists>rc ptr' s'. Read t p ptr s = Inr (rc, ptr', s') \<and>
           (rc = - 1 \<longleftrightarrow>
              \<not> created_key s \<or>
              (tls s t = None \<and>
               (new_Wrapper p = None \<or> push_back_throws p \<or> setspecific_rc p \<noteq> 0))) \<and>
           (rc \<noteq> - 1 \<longrightarrow>
              rc = 0 \<and> sp_data ptr' = Some (index s) \<and>
              ScopedPtr_deref ptr' s' = Some (data_at (data s) (index s)) \<and>
              index s' = index s \<and> data s' = data s \<and>
              (\<exists>w W. sp_w ptr' = Some w \<and> tls s' t = Some w \<and>
                     heap s' w = Some W \<and> mutex_held W))"
  using assms
  by (auto simp: Read_def AddWrapper_def BeginRead_def reader_free_def UnsafeRead_def
      ScopedPtr_deref_def emit_def Let_def Wrapper_dtor_def RemoveWrapper_def
      split: option.splits if_splits)

theorem Read_fails_only_without_key_or_registration_witness:
  "reader_free 0 (DoublyBufferedData_ctor 0 True (0::int) (0, 0)) \<and>
   (\<exists>ptr' s'. Read 0 \<lparr>new_Wrapper = Some 0, push_back_throws = False, setspecific_rc = 0\<rparr>
                 ScopedPtr_ctor (DoublyBufferedData_ctor 0 True (0::int) (0, 0))
               = Inr (0, ptr', s') \<and>
              sp_data ptr' = Some 0 \<and> ScopedPtr_deref ptr' s' = Some 0)"
proof -
  let ?s = "DoublyBufferedData_ctor 0 True (0::int) (0, 0)"
  let ?p = "\<lparr>new_Wrapper = Some 0, push_back_throws = False, setspecific_rc = 0\<rparr>"
  have i: "index ?s = 0" and d: "data ?s = (0, 0)" and k: "created_key ?s"
    by (simp_all add: DoublyBufferedData_ctor_def Let_def data_set_def)
  have h: "reader_free 0 ?s"
    by (simp add: reader_free_def DoublyBufferedData_ctor_def Let_def)
  from Read_fails_only_without_key_or_registration [of 0 ?s ?p ScopedPtr_ctor, OF h]
  show ?thesis using h
    by (auto simp: i d k data_at_def)
qed

text \<open>The loop of RemoveWrapper leaves a registry that does not hold \<open>w\<close> as it is.\<close>

lemma RemoveWrapper_loop_absent: "w \<notin> set ws \<Longrightarrow> RemoveWrapper_loop i w ws = ws"
proof (induction i w ws rule: RemoveWrapper_loop.induct)
  case (1 i w ws)
  show ?case
  proof (cases "i < length ws")
    case True
    with "1.prems" have "ws ! i \<noteq> w" by auto
    with True "1.IH" "1.prems" show ?thesis
      by (subst RemoveWrapper_loop.simps) simp
  next
    case False
    then show ?thesis by (subst RemoveWrapper_loop.simps) simp
  qed
qed

text \<open>
  What a failing Read leaves behind. The guard, the slots, the index and the threads' slots
  are always as before. The registry and the Wrappers are as before when the key was
  missing, \<^verbatim>\<open>new\<close> gave NULL or \<^verbatim>\<open>push_back\<close> threw; when \<^verbatim>\<open>pthread_setspecific\<close>
  fails the new Wrapper stays at the end of the registry.
\<close>

lemma Read_failure_frame:
  assumes "Read t p ptr s = Inr (- 1, ptr', s')"
  shows "ptr' = ptr \<and> data s' = data s \<and> index s' = index s \<and> tls s' = tls s \<and>
         created_key s' = created_key s"
  using assms
  by (auto simp: Read_def AddWrapper_def BeginRead_def emit_def Let_def Wrapper_dtor_def
      RemoveWrapper_def split: option.splits if_splits)

lemma Read_failure_registry:
  assumes "Read t p ptr s = Inr (- 1, ptr', s')"
    and "\<forall>w. new_Wrapper p = Some w \<longrightarrow> heap s w = None \<and> w \<notin> set (wrappers s)"
    and "\<not> created_key s \<or> new_Wrapper p = None \<or> push_back_throws p"
  shows "wrappers s' = wrappers s \<and> heap s' = heap s"
  using assms
  by (auto simp: Read_def AddWrapper_def BeginRead_def emit_def Let_def Wrapper_dtor_def
      RemoveWrapper_def RemoveWrapper_loop_absent split: option.splits if_splits)

text \<open>Destroying a guard that is still empty does nothing.\<close>

lemma ScopedPtr_dtor_default: "ScopedPtr_dtor ScopedPtr_ctor s = Inr s"
  by (simp add: ScopedPtr_dtor_def ScopedPtr_ctor_def)

lemma Read_failure_setspecific:
  assumes "created_key s" and "tls s t = None" and "new_Wrapper p = Some w"
    and "\<not> push_back_throws p" and "setspecific_rc p \<noteq> 0"
  shows "\<exists>s'. Read t p ptr s = Inr (- 1, ptr, s') \<and> wrappers s' = wrappers s @ [w] \<and>
           tls s' = tls s"
  using assms
  by (simp add: Read_def AddWrapper_def emit_def Let_def)


text \<open>
  C7. The claim: a Read that fails leaves the registry as it was. On a fresh container
  (empty registry), a first Read in which the allocation and \<^verbatim>\<open>push_back\<close> succeed
  and \<^verbatim>\<open>pthread_setspecific\<close> returns 12 (ENOMEM) answers -1 with the guard still
  empty, and the new Wrapper stays in the registry, bound to no thread.
\<close>

theorem Read_failure_leaves_Wrapper_registered:
  "wrappers (DoublyBufferedData_ctor 0 True (0::int) (0, 0)) = [] \<and>
   (\<exists>s'. Read 0 \<lparr>new_Wrapper = Some 0, push_back_throws = False, setspecific_rc = 12\<rparr>
            ScopedPtr_ctor (DoublyBufferedData_ctor 0 True (0::int) (0, 0))
          = Inr (- 1, ScopedPtr_ctor, s') \<and>
          wrappers s' = [0] \<and> tls s' 0 = None \<and>
          heap s' 0 = Some \<lparr>control = True, mutex_held = False\<rparr>)"
  by (simp add: Read_def AddWrapper_def DoublyBufferedData_ctor_def emit_def Let_def data_set_def)

section \<open>The constructor\<close>

text \<open>
  C9. The constructor sets the index to 0 and, for a scalar-like T, both slots to
  \<^verbatim>\<open>T()\<close>; the key is created exactly when \<^verbatim>\<open>pthread_key_create\<close> returned 0. The
  first Read on the new container returns; it succeeds exactly when the key was created
  and the registration went through, and then, for a scalar-like T, the guard points at
  a slot holding \<^verbatim>\<open>T()\<close>.
\<close>

theorem ctor_first_Read_sees_default:
  "index (DoublyBufferedData_ctor rc scalar_like T0 d) = 0 \<and>
   (scalar_like \<longrightarrow> data (DoublyBufferedData_ctor rc scalar_like T0 d) = (T0, T0)) \<and>
   (\<not> scalar_like \<longrightarrow> data (DoublyBufferedData_ctor rc scalar_like T0 d) = d) \<and>
   (created_key (DoublyBufferedData_ctor rc scalar_like T0 d) \<longleftrightarrow> rc = 0) \<and>
   (\<exists>r ptr' s'. Read t p ScopedPtr_ctor (DoublyBufferedData_ctor rc scalar_like T0 d)
                   = Inr (r, ptr', s') \<and>
        (r = 0 \<longleftrightarrow> rc = 0 \<and> new_Wrapper p \<noteq> None \<and> \<not> push_back_throws p \<and>
                     setspecific_rc p = 0) \<and>
        (scalar_like \<and> r = 0 \<longrightarrow> ScopedPtr_deref ptr' s' = Some T0))"
  by (auto simp: Read_def AddWrapper_def BeginRead_def UnsafeRead_def
      ScopedPtr_deref_def ScopedPtr_ctor_def DoublyBufferedData_ctor_def emit_def Let_def
      Wrapper_dtor_def RemoveWrapper_def data_at_def data_set_def
      split: option.splits if_splits)

theorem ctor_first_Read_sees_default_witness:
  "index (DoublyBufferedData_ctor 0 True (0::int) (3, 4)) = 0 \<and>
   data (DoublyBufferedData_ctor 0 True (0::int) (3, 4)) = (0, 0) \<and>
   (\<exists>ptr' s'. Read 0 \<lparr>new_Wrapper = Some 0, push_back_throws = False, setspecific_rc = 0\<rparr>
                 ScopedPtr_ctor (DoublyBufferedData_ctor 0 True (0::int) (3, 4))
               = Inr (0, ptr', s') \<and> ScopedPtr_deref ptr' s' = Some 0)"
proof -
  let ?p = "\<lparr>new_Wrapper = Some 0, push_back_throws = False, setspecific_rc = 0\<rparr>"
  from ctor_first_Read_sees_default [of 0 True "0::int" "(3, 4)" 0 ?p]
  show ?thesis by auto
qed

section \<open>Leaving the registry\<close>

text \<open>Overwriting position \<open>i\<close> with the last element and dropping the last element
  removes one occurrence of the element at \<open>i\<close>.\<close>

lemma swap_remove_mset:
  assumes "i < length ws"
  shows "mset (butlast (ws[i := last ws])) = mset ws - {#ws ! i#}"
proof -
  from assms have "ws \<noteq> []" by auto
  then obtain xs l where ws: "ws = xs @ [l]"
    by (metis rev_exhaust)
  show ?thesis
  proof (cases "i = length xs")
    case True
    then show ?thesis by (simp add: ws)
  next
    case False
    with assms have i: "i < length xs" by (simp add: ws)
    then have "xs ! i \<in># mset xs" by simp
    with i show ?thesis
      by (simp add: ws list_update_append nth_append mset_update)
  qed
qed

lemma RemoveWrapper_loop_mset:
  "i \<le> length ws \<Longrightarrow> w \<notin> set (take i ws) \<Longrightarrow>
   mset (RemoveWrapper_loop i w ws) = mset ws - {#w#}"
proof (induction i w ws rule: RemoveWrapper_loop.induct)
  case (1 i w ws)
  show ?case
  proof (cases "i < length ws")
    case False
    then have "RemoveWrapper_loop i w ws = ws"
      by (subst RemoveWrapper_loop.simps) simp
    with False "1.prems" show ?thesis
      by simp
  next
    case inside: True
    show ?thesis
    proof (cases "ws ! i = w")
      case True
      with inside swap_remove_mset [of i ws] show ?thesis
        by (simp add: RemoveWrapper_loop.simps [of i w ws])
    next
      case False
      with inside "1.prems" have "w \<notin> set (take (i + 1) ws)"
        by (simp add: take_Suc_conv_app_nth)
      with "1.IH" [OF inside False] inside False show ?thesis
        by (simp add: RemoveWrapper_loop.simps [of i w ws])
    qed
  qed
qed

lemma RemoveWrapper_loop_distinct:
  assumes "distinct ws"
  shows "distinct (RemoveWrapper_loop 0 w ws) \<and>
         set (RemoveWrapper_loop 0 w ws) = set ws - {w}"
proof -
  have eq: "mset (RemoveWrapper_loop 0 w ws) = mset (remove1 w ws)"
    by (simp add: RemoveWrapper_loop_mset)
  from mset_eq_imp_distinct_iff [OF eq] mset_eq_setD [OF eq] assms
  show ?thesis by simp
qed

text \<open>
  C10. In a registry without duplicates: the destructor of a Wrapper whose back-pointer
  is not NULL takes the registry lock, removes exactly its own address (every other
  entry stays) and releases the lock; with a NULL back-pointer it leaves the state as it
  is. So when a thread ends whose Wrapper is live and points to the container, the
  Wrapper is freed, the thread's slot is NULL and the registry holds every former entry
  but that one.
\<close>

theorem Wrapper_leaves_registry_at_thread_exit:
  assumes "distinct (wrappers s)"
  shows "(control W \<longrightarrow>
            (\<exists>ws'. Wrapper_dtor w W s =
                     s\<lparr>wrappers := ws',
                       trace := trace s @ [Lock wrappers_mutex, Unlock wrappers_mutex]\<rparr> \<and>
                   mset ws' = mset (wrappers s) - {#w#} \<and> w \<notin> set ws')) \<and>
         (\<not> control W \<longrightarrow> Wrapper_dtor w W s = s) \<and>
         (tls s t = Some w \<and> heap s w = Some W \<and> control W \<longrightarrow>
            (\<exists>s'. thread_exit t s = Inr s' \<and> tls s' t = None \<and> heap s' w = None \<and>
                  w \<notin> set (wrappers s') \<and> set (wrappers s') = set (wrappers s) - {w} \<and>
                  distinct (wrappers s')))"
proof -
  let ?ws = "RemoveWrapper_loop 0 w (wrappers s)"
  have m: "mset ?ws = mset (wrappers s) - {#w#}"
    by (simp add: RemoveWrapper_loop_mset)
  have d: "distinct ?ws" and e: "set ?ws = set (wrappers s) - {w}"
    using RemoveWrapper_loop_distinct [OF assms, of w] by simp_all
  from e have n: "w \<notin> set ?ws" by simp
  have dtor: "control W \<Longrightarrow> Wrapper_dtor w W s =
      s\<lparr>wrappers := ?ws, trace := trace s @ [Lock wrappers_mutex, Unlock wrappers_mutex]\<rparr>"
    by (simp add: Wrapper_dtor_def RemoveWrapper_def emit_def Let_def)
  show ?thesis
  proof (intro conjI impI)
    assume "control W"
    with dtor m n show "\<exists>ws'. Wrapper_dtor w W s =
                     s\<lparr>wrappers := ws',
                       trace := trace s @ [Lock wrappers_mutex, Unlock wrappers_mutex]\<rparr> \<and>
                   mset ws' = mset (wrappers s) - {#w#} \<and> w \<notin> set ws'"
      by blast
  next
    assume "\<not> control W"
    then show "Wrapper_dtor w W s = s" by (simp add: Wrapper_dtor_def)
  next
    assume a: "tls s t = Some w \<and> heap s w = Some W \<and> control W"
    then have "thread_exit t s =
        Inr (s\<lparr>tls := (tls s)(t := None), wrappers := ?ws,
               trace := trace s @ [Lock wrappers_mutex, Unlock wrappers_mutex],
               heap := (heap s)(w := None)\<rparr>)"
      by (simp add: thread_exit_def delete_object_def Wrapper_dtor_def RemoveWrapper_def
          emit_def Let_def)
    with d e n show "\<exists>s'. thread_exit t s = Inr s' \<and> tls s' t = None \<and> heap s' w = None \<and>
                  w \<notin> set (wrappers s') \<and> set (wrappers s') = set (wrappers s) - {w} \<and>
                  distinct (wrappers s')"
      by simp
  qed
qed

theorem Wrapper_leaves_registry_at_thread_exit_witness:
  "distinct (wrappers ((DoublyBufferedData_ctor 0 True (0::int) (0, 0))
      \<lparr>wrappers := [3, 5, 7],
       heap := [3 \<mapsto> \<lparr>control = True, mutex_held = False\<rparr>,
                5 \<mapsto> \<lparr>control = True, mutex_held = False\<rparr>,
                7 \<mapsto> \<lparr>control = True, mutex_held = False\<rparr>],
       tls := [0 \<mapsto> 3, 1 \<mapsto> 5, 2 \<mapsto> 7]\<rparr>)) \<and>
   (\<exists>s'. thread_exit 1 ((DoublyBufferedData_ctor 0 True (0::int) (0, 0))
      \<lparr>wrappers := [3, 5, 7],
       heap := [3 \<mapsto> \<lparr>control = True, mutex_held = False\<rparr>,
                5 \<mapsto> \<lparr>control = True, mutex_held = False\<rparr>,
                7 \<mapsto> \<lparr>control = True, mutex_held = False\<rparr>],
       tls := [0 \<mapsto> 3, 1 \<mapsto> 5, 2 \<mapsto> 7]\<rparr>) = Inr s' \<and>
      5 \<notin> set (wrappers s') \<and> set (wrappers s') = {3, 7} \<and> tls s' 1 = None)"
proof -
  let ?W = "\<lparr>control = True, mutex_held = False\<rparr>"
  let ?s = "(DoublyBufferedData_ctor 0 True (0::int) (0, 0))
      \<lparr>wrappers := [3, 5, 7], heap := [3 \<mapsto> ?W, 5 \<mapsto> ?W, 7 \<mapsto> ?W],
       tls := [0 \<mapsto> 3, 1 \<mapsto> 5, 2 \<mapsto> 7]\<rparr>"
  have h: "distinct (wrappers ?s)" by simp
  have b: "tls ?s 1 = Some 5 \<and> heap ?s 5 = Some ?W \<and> control ?W" by simp
  from Wrapper_leaves_registry_at_thread_exit [of ?s ?W 5 1, OF h] b
  obtain s' where "thread_exit 1 ?s = Inr s'" "tls s' 1 = None" "5 \<notin> set (wrappers s')"
    "set (wrappers s') = set (wrappers ?s) - {5}"
    by blast
  moreover have "set (wrappers ?s) - {5} = {3, 7}" by auto
  ultimately show ?thesis using h by auto
qed

section \<open>The invariant is kept\<close>

text \<open>A drain that returns has only added its lock events to the trace.\<close>

lemma WaitReadDone_all_returns:
  "WaitReadDone_all ws s = Inr s' \<Longrightarrow> s' = s\<lparr>trace := trace s @ drain_events ws\<rparr>"
proof (induction ws arbitrary: s)
  case Nil
  then show ?case by (simp add: drain_events_def)
next
  case (Cons w ws)
  let ?s1 = "emit (Unlock (wrapper_mutex w)) (emit (Lock (wrapper_mutex w)) s)"
  from Cons.prems have "WaitReadDone_all ws ?s1 = Inr s'"
    by (auto split: option.splits if_splits)
  then have "s' = ?s1\<lparr>trace := trace ?s1 @ drain_events ws\<rparr>"
    by (rule Cons.IH)
  then show ?case by (simp add: drain_events_def emit_def)
qed

text \<open>A Modify that returns leaves the registry, the Wrappers and the threads' slots as
  they were, and the index is the old one or its negation.\<close>

lemma Modify_frame:
  assumes "Modify fn f s = Inr (r, f', s')"
  shows "wrappers s' = wrappers s \<and> heap s' = heap s \<and> tls s' = tls s \<and>
         created_key s' = created_key s \<and>
         (index s' = index s \<or> index s' = lnot (index s))"
proof -
  obtain r1 f1 v1 where first: "fn f (lnot (index s)) (data s) = (r1, f1, v1)"
    by (metis prod_cases3)
  show ?thesis
  proof (cases "r1 = 0")
    case True
    with first assms Modify_early_exit [of fn f s f1 v1] show ?thesis by auto
  next
    case False
    with first assms show ?thesis
      by (auto simp: Modify_def Let_def emit_def split: sum.splits prod.splits if_splits
          dest!: WaitReadDone_all_returns)
  qed
qed

text \<open>The constructor establishes the invariant; Modify, Read (given a fresh address
  from \<^verbatim>\<open>new\<close>), the guard's destructor and a thread's exit keep it.\<close>

lemma dbd_inv_facts:
  assumes "dbd_inv s"
  shows "index s = 0 \<or> index s = 1" and "distinct (wrappers s)"
    and "tls s t = Some w \<Longrightarrow> \<exists>W. heap s w = Some W \<and> control W"
  using assms unfolding dbd_inv_def by blast+

lemma dbd_inv_ctor: "dbd_inv (DoublyBufferedData_ctor rc scalar_like T0 d)"
  by (simp add: dbd_inv_def DoublyBufferedData_ctor_def emit_def Let_def)

lemma dbd_inv_Modify:
  assumes "dbd_inv s" and "Modify fn f s = Inr (r, f', s')"
  shows "dbd_inv s'"
proof -
  from Modify_frame [OF assms(2)] assms(1) show ?thesis
    by (auto simp: dbd_inv_def lnot_def)
qed

lemma dbd_inv_fresh:
  assumes "dbd_inv s" and "fresh p s" and "new_Wrapper p = Some w"
  shows "w \<notin> set (wrappers s) \<and> heap s w = None \<and> (\<forall>t. tls s t \<noteq> Some w)"
  using assms by (fastforce simp: dbd_inv_def fresh_def)

lemma dbd_inv_BeginRead:
  assumes inv: "dbd_inv s" and br: "BeginRead w s = Inr s'"
  shows "dbd_inv s'"
proof -
  from br obtain W where W: "heap s w = Some W"
    and s': "s' = emit (Lock (wrapper_mutex w)) (s\<lparr>heap := (heap s)(w \<mapsto> W\<lparr>mutex_held := True\<rparr>)\<rparr>)"
    by (auto simp: BeginRead_def split: option.splits if_splits)
  from inv have reg: "\<And>w'. w' \<in> set (wrappers s) \<Longrightarrow> \<exists>W'. heap s w' = Some W' \<and> control W'"
    by (simp add: dbd_inv_def)
  have "\<exists>W'. heap s' w' = Some W' \<and> control W'" if "w' \<in> set (wrappers s)" for w'
    using reg [OF that] W by (auto simp: s' emit_def)
  with inv show ?thesis
    by (simp add: dbd_inv_def s' emit_def)
qed

lemma dbd_inv_AddWrapper:
  assumes inv: "dbd_inv s" and fr: "fresh p s" and aw: "AddWrapper p s = (r, s')"
  shows "dbd_inv s' \<and> tls s' = tls s \<and>
         (case r of None \<Rightarrow> True
          | Some w \<Rightarrow> w \<in> set (wrappers s') \<and> (\<forall>t. tls s t \<noteq> Some w) \<and>
                      heap s' w = Some \<lparr>control = True, mutex_held = False\<rparr>)"
proof (cases "new_Wrapper p")
  case None
  with inv aw show ?thesis by (auto simp: AddWrapper_def)
next
  case (Some w)
  from dbd_inv_fresh [OF inv fr Some]
  have w: "w \<notin> set (wrappers s)" "heap s w = None" "\<forall>t. tls s t \<noteq> Some w" by simp_all
  from inv have reg: "\<And>w'. w' \<in> set (wrappers s) \<Longrightarrow> \<exists>W'. heap s w' = Some W' \<and> control W'"
    by (simp add: dbd_inv_def)
  show ?thesis
  proof (cases "push_back_throws p")
    case True
    have "(heap s)(w := None) = heap s" using w by (simp add: fun_upd_idem)
    with True aw Some w
    have "s' = s\<lparr>trace := trace s @ [Lock wrappers_mutex, Unlock wrappers_mutex,
                                        Lock wrappers_mutex, Unlock wrappers_mutex]\<rparr>"
      and "r = None"
      by (auto simp: AddWrapper_def Let_def emit_def Wrapper_dtor_def RemoveWrapper_def
          RemoveWrapper_loop_absent)
    with inv show ?thesis by (simp add: dbd_inv_def)
  next
    case False
    with aw Some have r: "r = Some w"
      and s': "s' = s\<lparr>heap := (heap s)(w \<mapsto> \<lparr>control = True, mutex_held = False\<rparr>),
                      trace := trace s @ [Lock wrappers_mutex, Unlock wrappers_mutex],
                      wrappers := wrappers s @ [w]\<rparr>"
      by (auto simp: AddWrapper_def Let_def emit_def)
    have "\<exists>W'. heap s' w' = Some W' \<and> control W'" if "w' \<in> set (wrappers s')" for w'
      using that reg [of w'] w by (auto simp: s')
    moreover have "tls s' t = Some w' \<longrightarrow> w' \<in> set (wrappers s')" for t w'
      using inv by (auto simp: s' dbd_inv_def)
    ultimately have "dbd_inv s'"
      using inv w by (simp add: dbd_inv_def s')
    with w show ?thesis by (simp add: r s')
  qed
qed

lemma dbd_inv_Read:
  assumes inv: "dbd_inv s" and fr: "fresh p s" and rd: "Read t p ptr s = Inr (rc, ptr', s')"
  shows "dbd_inv s'"
proof (cases "created_key s")
  case False
  with inv rd show ?thesis by (simp add: Read_def)
next
  case key: True
  show ?thesis
  proof (cases "tls s t")
    case (Some w)
    with key rd have "BeginRead w s = Inr s'"
      by (auto simp: Read_def split: sum.splits)
    with inv show ?thesis by (rule dbd_inv_BeginRead)
  next
    case None
    obtain r s1 where aw: "AddWrapper p s = (r, s1)" by (metis surj_pair)
    from dbd_inv_AddWrapper [OF inv fr aw]
    have inv1: "dbd_inv s1" and tls1: "tls s1 = tls s"
      and r: "case r of None \<Rightarrow> True
          | Some w \<Rightarrow> w \<in> set (wrappers s1) \<and> (\<forall>t. tls s t \<noteq> Some w) \<and>
                      heap s1 w = Some \<lparr>control = True, mutex_held = False\<rparr>"
      by simp_all
    show ?thesis
    proof (cases r)
      case None
      with key \<open>tls s t = None\<close> aw rd inv1 show ?thesis by (simp add: Read_def)
    next
      case (Some w)
      show ?thesis
      proof (cases "setspecific_rc p = 0")
        case False
        with key \<open>tls s t = None\<close> aw rd inv1 Some show ?thesis by (simp add: Read_def)
      next
        case True
        let ?s2 = "s1\<lparr>tls := (tls s1)(t \<mapsto> w)\<rparr>"
        from r Some have w: "w \<in> set (wrappers s1)" "\<forall>t. tls s1 t \<noteq> Some w"
          by (simp_all add: tls1)
        with inv1 have "dbd_inv ?s2"
          by (auto simp: dbd_inv_def)
        moreover from key \<open>tls s t = None\<close> aw rd Some True have "BeginRead w ?s2 = Inr s'"
          by (auto simp: Read_def Let_def split: sum.splits)
        ultimately show ?thesis by (rule dbd_inv_BeginRead)
      qed
    qed
  qed
qed

lemma dbd_inv_thread_exit:
  assumes inv: "dbd_inv s" and ex: "thread_exit t s = Inr s'"
  shows "dbd_inv s' \<and> tls s' t = None"
proof (cases "tls s t")
  case None
  with inv ex show ?thesis by (simp add: thread_exit_def)
next
  case (Some w)
  from inv Some have reg: "w \<in> set (wrappers s)"
    unfolding dbd_inv_def by blast
  with inv obtain W where W: "heap s w = Some W" "control W"
    unfolding dbd_inv_def by blast
  let ?ws = "RemoveWrapper_loop 0 w (wrappers s)"
  from inv have "distinct (wrappers s)" by (simp add: dbd_inv_def)
  from RemoveWrapper_loop_distinct [OF this, of w]
  have d: "distinct ?ws" and e: "set ?ws = set (wrappers s) - {w}" by simp_all
  from ex Some W have s': "s' = s\<lparr>tls := (tls s)(t := None), wrappers := ?ws,
               trace := trace s @ [Lock wrappers_mutex, Unlock wrappers_mutex],
               heap := (heap s)(w := None)\<rparr>"
    by (simp add: thread_exit_def delete_object_def Wrapper_dtor_def RemoveWrapper_def
        emit_def Let_def)
  from inv Some have other: "tls s t' = Some w \<Longrightarrow> t' = t" for t'
    by (auto simp: dbd_inv_def)
  from inv d e other show ?thesis
    by (auto simp: dbd_inv_def s')
qed

lemma dbd_inv_ScopedPtr_dtor:
  assumes inv: "dbd_inv s" and dt: "ScopedPtr_dtor ptr s = Inr s'"
  shows "dbd_inv s'"
proof (cases "sp_w ptr")
  case None
  with inv dt show ?thesis by (simp add: ScopedPtr_dtor_def)
next
  case (Some w)
  with dt obtain W where W: "heap s w = Some W"
    and s': "s' = emit (Unlock (wrapper_mutex w)) (s\<lparr>heap := (heap s)(w \<mapsto> W\<lparr>mutex_held := False\<rparr>)\<rparr>)"
    by (auto simp: ScopedPtr_dtor_def EndRead_def split: option.splits)
  from inv have reg: "\<And>w'. w' \<in> set (wrappers s) \<Longrightarrow> \<exists>W'. heap s w' = Some W' \<and> control W'"
    by (simp add: dbd_inv_def)
  have "\<exists>W'. heap s' w' = Some W' \<and> control W'" if "w' \<in> set (wrappers s)" for w'
    using reg [OF that] W by (auto simp: s' emit_def)
  with inv show ?thesis
    by (simp add: dbd_inv_def s' emit_def)
qed

section \<open>main.cpp, run on the model\<close>

text \<open>
  The program of main.cpp: construct the container, Modify with AddDbd, Read and print,
  drop the guard, and the same again. Both reads see what the preceding Modify wrote, both
  slots end equal, and each Modify writes its line to \<^verbatim>\<open>std::cerr\<close>, since AddDbd returns
  the same value on both applications.
\<close>

lemma main_cpp_run:
  "\<exists>s1 g1 s2 s3 s4 g2 s5 s6.
     Modify2 AddDbd 1 ''test-1'' ()
       (DoublyBufferedData_ctor 0 False \<lparr>dt_index = 0, dt_body = ''''\<rparr>
          (\<lparr>dt_index = 0, dt_body = ''''\<rparr>, \<lparr>dt_index = 0, dt_body = ''''\<rparr>)) = Inr (1, (), s1) \<and>
     Read 0 \<lparr>new_Wrapper = Some 0, push_back_throws = False, setspecific_rc = 0\<rparr>
       ScopedPtr_ctor s1 = Inr (0, g1, s2) \<and>
     ScopedPtr_deref g1 s2 = Some \<lparr>dt_index = 1, dt_body = ''test-1''\<rparr> \<and>
     ScopedPtr_dtor g1 s2 = Inr s3 \<and>
     Modify2 AddDbd 2 ''test-2'' () s3 = Inr (1, (), s4) \<and>
     Read 0 \<lparr>new_Wrapper = None, push_back_throws = False, setspecific_rc = 0\<rparr>
       ScopedPtr_ctor s4 = Inr (0, g2, s5) \<and>
     ScopedPtr_deref g2 s5 = Some \<lparr>dt_index = 2, dt_body = ''test-2''\<rparr> \<and>
     ScopedPtr_dtor g2 s5 = Inr s6 \<and>
     data s6 = (\<lparr>dt_index = 2, dt_body = ''test-2''\<rparr>, \<lparr>dt_index = 2, dt_body = ''test-2''\<rparr>) \<and>
     diagnostics (trace s6) = [Modify_index 1, Modify_index 0]"
  by (simp add: Modify2_def Closure2_def AddDbd_def Modify_def Read_def AddWrapper_def
      BeginRead_def EndRead_def UnsafeRead_def ScopedPtr_ctor_def ScopedPtr_dtor_def
      ScopedPtr_deref_def DoublyBufferedData_ctor_def emit_def lnot_def data_at_def
      data_set_def Let_def)

end
